theory Spec2Isabelle
  imports Main "HOL-Library.AList" "HOL-Library.Char_ord" "HOL-Library.List_Lexorder"
begin

section \<open>envsync: synchronising a source env file into a target env file\<close>

text \<open>
  The repository holds two versions of the package:
  \<^item> \<^verbatim>\<open>envsync.go\<close>, the flat variant: \<open>writeEnv\<close> emits one line per key and
    \<open>Sync\<close> checks the exit status of the backup copy;
  \<^item> the second file, the grouped variant: \<open>writeEnv\<close> puts a \<^verbatim>\<open># group\<close> header
    before each run of keys with the same prefix, \<open>appendNewEnv\<close> also returns the added
    entries, \<open>print\<close> lists them, and \<open>Sync\<close> does not look at the result of the backup copy.
  \<open>mapEnv\<close> is the same in both. The definitions of the grouped variant carry the suffix
  \<open>G\<close> where the two differ.

  A Go string is a byte sequence: \<open>string\<close> (a \<open>char list\<close>, 8-bit characters). A Go
  \<^verbatim>\<open>map[string]string\<close> is an association list with distinct keys: \<open>m[k]\<close> is
  \<open>map_of\<close>, \<open>m[k] = v\<close> is \<open>AList.update\<close>, and the order of the list stands for the
  order in which a \<^verbatim>\<open>range\<close> loop happens to visit the entries, which Go leaves open.
\<close>

subsection \<open>Strings: the library functions the package calls\<close>

abbreviation NL :: char where "NL \<equiv> CHR 0x0A"
abbreviation CR :: char where "CR \<equiv> CHR 0x0D"

type_synonym env = "(string \<times> string) list"

text \<open>\<^verbatim>\<open>separator = "="\<close>, a single byte, and \<^verbatim>\<open>splitNumber = 2\<close>.\<close>

definition separator :: char where "separator = CHR ''=''"
definition splitNumber :: nat where "splitNumber = 2"

text \<open>\<^verbatim>\<open>bytes.IndexByte\<close>: the index of the first occurrence, if any.\<close>

fun IndexByte :: "string \<Rightarrow> char \<Rightarrow> nat option" where
  "IndexByte [] c = None"
| "IndexByte (x # xs) c = (if x = c then Some 0 else map_option Suc (IndexByte xs c))"

text \<open>
  \<^verbatim>\<open>strings.SplitN(s, sep, n)\<close> for a one-byte separator: at most \<open>n\<close> pieces, the last one
  holding the unsplit rest; \<^verbatim>\<open>strings.Split\<close> is \<open>SplitN\<close> with one piece more than there
  are separators.
\<close>

fun SplitN :: "string \<Rightarrow> char \<Rightarrow> nat \<Rightarrow> string list" where
  "SplitN s sep 0 = []"
| "SplitN s sep (Suc 0) = [s]"
| "SplitN s sep (Suc (Suc n)) =
     (case IndexByte s sep of
        None \<Rightarrow> [s]
      | Some m \<Rightarrow> take m s # SplitN (drop (m + 1) s) sep (Suc n))"

definition Split :: "string \<Rightarrow> char \<Rightarrow> string list" where
  "Split s sep = SplitN s sep (Suc (count_list s sep))"

text \<open>\<^verbatim>\<open>strings.HasPrefix\<close>.\<close>

definition HasPrefix :: "string \<Rightarrow> string \<Rightarrow> bool" where
  "HasPrefix s p \<longleftrightarrow> length p \<le> length s \<and> take (length p) s = p"

text \<open>
  \<^verbatim>\<open>bufio.ScanLines\<close> on the unread rest of a file that is wholly available: no token on
  empty data, otherwise the bytes up to the first newline (or to the end of the data)
  without one trailing carriage return, and the number of bytes consumed.
\<close>

definition dropCR :: "string \<Rightarrow> string" where
  "dropCR data = (if data \<noteq> [] \<and> last data = CR then butlast data else data)"

definition ScanLines :: "string \<Rightarrow> (nat \<times> string) option" where
  "ScanLines data =
     (if data = [] then None
      else case IndexByte data NL of
             Some i \<Rightarrow> Some (i + 1, dropCR (take i data))
           | None \<Rightarrow> Some (length data, dropCR data))"

text \<open>
  The tokens that successive calls of \<^verbatim>\<open>sc.Scan()\<close> deliver, \<^verbatim>\<open>sc.Text()\<close> of each. The
  scanner's buffer limit (a line of 64 KiB or more ends the scan) and read errors of the
  device are outside this model: a file is a byte string that is read in full.
\<close>

function Scan :: "string \<Rightarrow> string list" where
  "Scan data =
     (case ScanLines data of
        None \<Rightarrow> []
      | Some (advance, token) \<Rightarrow> token # Scan (drop advance data))"
  by pat_completeness auto
termination
  by (relation "measure length")
     (auto simp: ScanLines_def split: if_splits option.splits)

declare Scan.simps [simp del]

subsection \<open>Errors\<close>

text \<open>
  \<open>PathError\<close>: \<^verbatim>\<open>os.Open\<close> or \<^verbatim>\<open>os.OpenFile\<close> failed. \<open>SplitError line\<close>: the error
  of \<open>mapEnv\<close>, whose message quotes the line. \<open>ExitError\<close>: an external command ended
  with a failure. \<open>WriteError\<close>: \<^verbatim>\<open>file.WriteString\<close> failed. \<open>Wrap e msg\<close> is
  \<^verbatim>\<open>errors.Wrap(e, msg)\<close> on an error; on \<^verbatim>\<open>nil\<close> \<^verbatim>\<open>errors.Wrap\<close> returns \<^verbatim>\<open>nil\<close>.
\<close>

datatype error =
    PathError
  | SplitError string
  | ExitError
  | WriteError
  | Wrap error string

definition Wrap_opt :: "error option \<Rightarrow> string \<Rightarrow> error option" where
  "Wrap_opt err msg = map_option (\<lambda>e. Wrap e msg) err"

subsection \<open>The parser \<open>mapEnv\<close>\<close>

text \<open>
  The loop over the scanner's tokens: an empty line and a line that starts with \<^verbatim>\<open>#\<close> are
  passed over, a line that does not split in two at the separator ends the loop with the
  map built so far and an error, any other line stores its value under its key.
\<close>

fun mapEnv_loop :: "string list \<Rightarrow> env \<Rightarrow> env \<times> error option" where
  "mapEnv_loop [] res = (res, None)"
| "mapEnv_loop (text # rest) res =
     (if text \<noteq> [] then
        if HasPrefix text ''#'' then mapEnv_loop rest res
        else
          let sp = SplitN text separator splitNumber in
          if length sp \<noteq> splitNumber then (res, Some (SplitError text))
          else mapEnv_loop rest (AList.update (sp ! 0) (sp ! 1) res)
      else mapEnv_loop rest res)"

definition mapEnv :: "string \<Rightarrow> env \<times> error option" where
  "mapEnv file = mapEnv_loop (Scan file) []"

subsection \<open>Files, external commands and their faults\<close>

text \<open>
  The file system is a map from paths to contents. The faults that the environment can
  inject are part of the state: \<open>room\<close> is the number of bytes the device still accepts
  (\<open>None\<close>: no limit), and \<open>cp_fails\<close> makes every \<^verbatim>\<open>cp\<close> command exit with a failure
  without copying. \<open>stdout\<close> collects what \<open>print\<close> writes.
\<close>

record world =
  files :: "string \<rightharpoonup> string"
  room :: "nat option"
  cp_fails :: bool
  stdout :: string

text \<open>
  \<^verbatim>\<open>exec.Command("cp", src, dst).Run()\<close>, with or without \<^verbatim>\<open>-f\<close>, and
  \<^verbatim>\<open>exec.Command("rm", "-rf", path).Run()\<close> (\<^verbatim>\<open>-f\<close> in the grouped variant) on the path of
  a file.
\<close>

definition cp :: "string \<Rightarrow> string \<Rightarrow> world \<Rightarrow> error option \<times> world" where
  "cp src dst w =
     (case files w src of
        None \<Rightarrow> (Some ExitError, w)
      | Some data \<Rightarrow>
          if cp_fails w then (Some ExitError, w)
          else (None, w\<lparr>files := (files w)(dst \<mapsto> data)\<rparr>))"

definition rm :: "string \<Rightarrow> world \<Rightarrow> world" where
  "rm path w = w\<lparr>files := (files w)(path := None)\<rparr>"

text \<open>
  \<^verbatim>\<open>file.Truncate(0)\<close> on the open target, and \<^verbatim>\<open>file.WriteString\<close> on a file opened with
  \<^verbatim>\<open>O_APPEND\<close>: the bytes go to the end of the file, as many of them as the device has
  room for, and the call fails when not all of them fit.
\<close>

definition Truncate :: "string \<Rightarrow> world \<Rightarrow> world" where
  "Truncate path w =
     (case files w path of
        None \<Rightarrow> w
      | Some data \<Rightarrow> w\<lparr>files := (files w)(path \<mapsto> [])\<rparr>)"

definition WriteString :: "string \<Rightarrow> string \<Rightarrow> world \<Rightarrow> error option \<times> world" where
  "WriteString path s w =
     (case files w path of
        None \<Rightarrow> (Some WriteError, w)
      | Some data \<Rightarrow>
          (case room w of
             None \<Rightarrow> (None, w\<lparr>files := (files w)(path \<mapsto> data @ s)\<rparr>)
           | Some r \<Rightarrow>
               if length s \<le> r
               then (None, w\<lparr>files := (files w)(path \<mapsto> data @ s), room := Some (r - length s)\<rparr>)
               else (Some WriteError,
                     w\<lparr>files := (files w)(path \<mapsto> data @ take r s), room := Some 0\<rparr>)))"

subsection \<open>The differ \<open>appendNewEnv\<close>\<close>

text \<open>\<^verbatim>\<open>env[k]\<close> on a Go map: the value, or the empty string for a missing key.\<close>

definition getv :: "env \<Rightarrow> string \<Rightarrow> string" where
  "getv env k = (case map_of env k of None \<Rightarrow> [] | Some v \<Rightarrow> v)"

text \<open>The flat variant: the loop over \<open>sMap\<close> updates \<open>tMap\<close> and returns it.\<close>

fun appendNewEnv :: "env \<Rightarrow> env \<Rightarrow> env" where
  "appendNewEnv [] tMap = tMap"
| "appendNewEnv ((k, v) # sMap) tMap =
     (if map_of tMap k = None then appendNewEnv sMap (AList.update k v tMap)
      else appendNewEnv sMap tMap)"

text \<open>The grouped variant also collects the entries it adds.\<close>

fun appendNewEnvG_loop :: "env \<Rightarrow> env \<Rightarrow> env \<Rightarrow> env \<times> env" where
  "appendNewEnvG_loop [] tMap addedEnv = (tMap, addedEnv)"
| "appendNewEnvG_loop ((k, v) # sMap) tMap addedEnv =
     (if map_of tMap k = None
      then appendNewEnvG_loop sMap (AList.update k v tMap) (AList.update k v addedEnv)
      else appendNewEnvG_loop sMap tMap addedEnv)"

definition appendNewEnvG :: "env \<Rightarrow> env \<Rightarrow> env \<times> env" where
  "appendNewEnvG sMap tMap = appendNewEnvG_loop sMap tMap []"

subsection \<open>The writer \<open>writeEnv\<close>\<close>

text \<open>The formats \<^verbatim>\<open>"%s=%s\n"\<close>, \<^verbatim>\<open>"\n# %s\n"\<close> and \<^verbatim>\<open>"# %s\n"\<close>.\<close>

definition valueFmt :: "string \<Rightarrow> string \<Rightarrow> string" where
  "valueFmt k v = k @ ''='' @ v @ [NL]"

definition groupFmt :: "string \<Rightarrow> string" where
  "groupFmt g = [NL] @ ''# '' @ g @ [NL]"

definition firstGroupFmt :: "string \<Rightarrow> string" where
  "firstGroupFmt g = ''# '' @ g @ [NL]"

text \<open>
  The flat variant collects the keys, sorts them (\<^verbatim>\<open>sort.Strings\<close>: ascending in the
  byte-wise order of strings) and writes one line per key, stopping at the first write
  that fails.
\<close>

fun writeEnv_loop :: "string \<Rightarrow> env \<Rightarrow> string list \<Rightarrow> world \<Rightarrow> error option \<times> world" where
  "writeEnv_loop file env [] w = (None, w)"
| "writeEnv_loop file env (k # keys) w =
     (case WriteString file (valueFmt k (getv env k)) w of
        (Some err, w') \<Rightarrow>
          (Some (Wrap err (''error when writing key: '' @ k @ '', and value: '' @ getv env k)), w')
      | (None, w') \<Rightarrow> writeEnv_loop file env keys w')"

definition writeEnv :: "string \<Rightarrow> env \<Rightarrow> world \<Rightarrow> error option \<times> world" where
  "writeEnv file env w = writeEnv_loop file env (sort (map fst env)) w"

text \<open>
  The grouped variant: \<open>prefixG\<close> is \<^verbatim>\<open>strings.Split(key, "_")[0]\<close>; the loop carries the
  index, the current group \<open>grp\<close> (at first the empty string) and the buffer, and the buffer is
  written with one call.
\<close>

definition prefixG :: "string \<Rightarrow> string" where
  "prefixG key = Split key (CHR ''_'') ! 0"

fun writeEnvG_loop :: "env \<Rightarrow> string list \<Rightarrow> nat \<Rightarrow> string \<Rightarrow> string \<Rightarrow> string" where
  "writeEnvG_loop env [] i grp buff = buff"
| "writeEnvG_loop env (k # keys) i grp buff =
     (let g = prefixG k in
      if g \<noteq> grp then
        let groupComment = (if i = 0 then firstGroupFmt else groupFmt);
            buff1 = buff @ groupComment g
        in writeEnvG_loop env keys (i + 1) g (buff1 @ valueFmt k (getv env k))
      else writeEnvG_loop env keys (i + 1) grp (buff @ valueFmt k (getv env k)))"

definition writeEnvG_text :: "env \<Rightarrow> string" where
  "writeEnvG_text env = writeEnvG_loop env (sort (map fst env)) 0 [] []"

definition writeEnvG :: "string \<Rightarrow> env \<Rightarrow> world \<Rightarrow> error option \<times> world" where
  "writeEnvG file env w =
     (let buff = writeEnvG_text env in
      case WriteString file buff w of
        (Some err, w') \<Rightarrow> (Some (Wrap err (''error when writing file '' @ buff)), w')
      | (None, w') \<Rightarrow> (None, w'))"

text \<open>\<open>print\<close> of the grouped variant lists the added entries on standard output.\<close>

definition Print :: "string \<Rightarrow> world \<Rightarrow> world" where
  "Print s w = w\<lparr>stdout := stdout w @ s\<rparr>"

definition printG :: "env \<Rightarrow> world \<Rightarrow> world" where
  "printG env w =
     (let keys = sort (map fst env);
          w1 = (if length keys > 0 then Print (''New env added'' @ [NL]) w else w)
      in foldl (\<lambda>w k. Print (valueFmt k (getv env k)) w) w1 keys)"

subsection \<open>The orchestrator \<open>Sync\<close>\<close>

text \<open>
  The deferred closure takes the error as its parameter. If the error it is given is not
  \<^verbatim>\<open>nil\<close> it copies the backup over the target (ignoring the result of the copy), and in
  any case it removes the backup.
\<close>

definition cleanup :: "error option \<Rightarrow> string \<Rightarrow> string \<Rightarrow> world \<Rightarrow> world" where
  "cleanup err backupFile target w =
     (let w1 = (if err \<noteq> None then snd (cp backupFile target w) else w)
      in rm backupFile w1)"

text \<open>
  The statements after the \<^verbatim>\<open>defer\<close>, flat variant: open both files (neither is created),
  parse both, copy the target to the backup and give up if the copy fails, merge,
  truncate the target and write the merged map.
\<close>

definition Sync_steps :: "string \<Rightarrow> string \<Rightarrow> string \<Rightarrow> world \<Rightarrow> error option \<times> world" where
  "Sync_steps source target backupFile w =
     (case files w source of
        None \<Rightarrow> (Some (Wrap PathError ''couldn't open source file''), w)
      | Some sFile \<Rightarrow>
     (case files w target of
        None \<Rightarrow> (Some (Wrap PathError ''couldn't open target file''), w)
      | Some tFile \<Rightarrow>
     (case mapEnv sFile of
        (sMap, Some err) \<Rightarrow> (Some err, w)
      | (sMap, None) \<Rightarrow>
     (case mapEnv tFile of
        (tMap, Some err) \<Rightarrow> (Some err, w)
      | (tMap, None) \<Rightarrow>
     (case cp target backupFile w of
        (Some err, w1) \<Rightarrow> (Some err, w1)
      | (None, w1) \<Rightarrow>
          let addedEnv = appendNewEnv sMap tMap;
              w2 = Truncate target w1;
              (err, w3) = writeEnv target addedEnv w2
          in (Wrap_opt err ''couldn't write target file'', w3))))))"

text \<open>
  \<open>Sync\<close>: the \<^verbatim>\<open>defer\<close> statement is the second statement of the function, and Go
  evaluates the argument of a deferred call when the \<^verbatim>\<open>defer\<close> statement runs. There
  \<^verbatim>\<open>err\<close> has just been declared by \<^verbatim>\<open>var err error\<close>, so the closure is called with
  \<^verbatim>\<open>nil\<close> when \<open>Sync\<close> returns, whatever happened in between.
\<close>

definition Sync :: "string \<Rightarrow> string \<Rightarrow> world \<Rightarrow> error option \<times> world" where
  "Sync source target w =
     (let err = None;
          backupFile = target @ ''.bak'';
          (res, w') = Sync_steps source target backupFile w
      in (res, cleanup err backupFile target w'))"

text \<open>
  The grouped variant: the result of the backup copy is dropped, \<open>appendNewEnv\<close> returns
  the merged map and the added entries, and the added entries are printed.
\<close>

definition SyncG_steps :: "string \<Rightarrow> string \<Rightarrow> string \<Rightarrow> world \<Rightarrow> error option \<times> world" where
  "SyncG_steps source target backupFile w =
     (case files w source of
        None \<Rightarrow> (Some (Wrap PathError ''couldn't open source file''), w)
      | Some sFile \<Rightarrow>
     (case files w target of
        None \<Rightarrow> (Some (Wrap PathError ''couldn't open target file''), w)
      | Some tFile \<Rightarrow>
     (case mapEnv sFile of
        (sMap, Some err) \<Rightarrow> (Some err, w)
      | (sMap, None) \<Rightarrow>
     (case mapEnv tFile of
        (tMap, Some err) \<Rightarrow> (Some err, w)
      | (tMap, None) \<Rightarrow>
          let w1 = snd (cp target backupFile w);
              (newEnv, additionalEnv) = appendNewEnvG sMap tMap;
              w2 = printG additionalEnv w1;
              w3 = Truncate target w2;
              (err, w4) = writeEnvG target newEnv w3
          in (Wrap_opt err ''couldn't write target file'', w4)))))"

definition SyncG :: "string \<Rightarrow> string \<Rightarrow> world \<Rightarrow> error option \<times> world" where
  "SyncG source target w =
     (let err = None;
          backupFile = target @ ''.bak'';
          (res, w') = SyncG_steps source target backupFile w
      in (res, cleanup err backupFile target w'))"

subsection \<open>Vocabulary of the properties\<close>





text \<open>The text that the flat \<open>writeEnv\<close> hands to the file, one write per key.\<close>

definition writeEnv_text :: "env \<Rightarrow> string" where
  "writeEnv_text env = concat (map (\<lambda>k. valueFmt k (getv env k)) (sort (map fst env)))"

text \<open>
  The group label of a key in the words of the specification: the text before its first
  underscore. \<open>header_before prev k\<close> is what the grouped writer puts before the line of
  \<open>k\<close> when \<open>prev\<close> is the key written just before it (\<open>None\<close> for the first key):
  nothing while the label stays the same, the label of the first key counting as a change
  only when it is not empty. \<open>header_claimed\<close> gives the first key its header in every
  case. \<open>chunks H env prev keys\<close> lists, for each key, its header followed by its line.
\<close>

definition label :: "string \<Rightarrow> string" where
  "label k = takeWhile (\<lambda>c. c \<noteq> CHR ''_'') k"

fun header_before :: "string option \<Rightarrow> string \<Rightarrow> string" where
  "header_before None k = (if label k = [] then [] else ''# '' @ label k @ [NL])"
| "header_before (Some p) k = (if label k = label p then [] else [NL] @ ''# '' @ label k @ [NL])"

fun header_claimed :: "string option \<Rightarrow> string \<Rightarrow> string" where
  "header_claimed None k = ''# '' @ label k @ [NL]"
| "header_claimed (Some p) k = (if label k = label p then [] else [NL] @ ''# '' @ label k @ [NL])"

fun chunks :: "(string option \<Rightarrow> string \<Rightarrow> string) \<Rightarrow> env \<Rightarrow> string option \<Rightarrow> string list \<Rightarrow> string list" where
  "chunks H env prev [] = []"
| "chunks H env prev (k # ks) = (H prev k @ k @ ''='' @ getv env k @ [NL]) # chunks H env (Some k) ks"



text \<open>
  Small worlds for the examples: a full device, a \<^verbatim>\<open>cp\<close> that fails, an empty target
  with no fault, the scenario of the specification (source \<^verbatim>\<open>FOO=1\<close>, \<^verbatim>\<open>BAR=2\<close> and
  target \<^verbatim>\<open>FOO=0\<close>), and a target whose only line ends with two carriage returns.
\<close>

definition world_disk_full :: world where
  "world_disk_full = \<lparr>files = [''s'' \<mapsto> ''FOO=1\<newline>'', ''t'' \<mapsto> ''BAR=2\<newline>''],
     room = Some 0, cp_fails = False, stdout = []\<rparr>"

definition world_cp_failing :: world where
  "world_cp_failing = \<lparr>files = [''s'' \<mapsto> ''FOO=1\<newline>'', ''t'' \<mapsto> ''BAR=2\<newline>''],
     room = None, cp_fails = True, stdout = []\<rparr>"

definition world_empty_target :: world where
  "world_empty_target = \<lparr>files = [''t'' \<mapsto> []], room = None, cp_fails = False, stdout = []\<rparr>"



section \<open>Properties\<close>

subsection \<open>Splitting and scanning\<close>

lemma IndexByte_None_iff: "IndexByte s c = None \<longleftrightarrow> c \<notin> set s"
  by (induction s) auto














lemma IndexByte_Some_take: "IndexByte s c = Some m \<Longrightarrow> take m s = takeWhile (\<lambda>x. x \<noteq> c) s \<and> m < length s"
  by (induction s arbitrary: m) (auto split: if_splits)

lemma takeWhile_absent: "c \<notin> set s \<Longrightarrow> takeWhile (\<lambda>x. x \<noteq> c) s = s"
  by (induction s) auto

lemma SplitN_first:
  "SplitN s sep (Suc n) ! 0 = (if n = 0 then s else takeWhile (\<lambda>x. x \<noteq> sep) s)"
proof (cases n)
  case 0
  then show ?thesis by simp
next
  case (Suc m)
  show ?thesis
  proof (cases "IndexByte s sep")
    case None
    then have "sep \<notin> set s" by (simp add: IndexByte_None_iff)
    then show ?thesis
      using None Suc by (simp add: takeWhile_absent del: takeWhile_eq_all_conv)
  next
    case (Some i)
    with Suc IndexByte_Some_take [OF Some] show ?thesis by simp
  qed
qed

lemma prefixG_takeWhile: "prefixG key = takeWhile (\<lambda>c. c \<noteq> CHR ''_'') key"
proof (cases "CHR ''_'' \<in> set key")
  case True
  then have "count_list key (CHR ''_'') \<noteq> 0" by (simp add: count_list_0_iff)
  then show ?thesis by (simp add: prefixG_def Split_def SplitN_first)
next
  case False
  then show ?thesis
    by (simp add: prefixG_def Split_def SplitN_first takeWhile_absent del: takeWhile_eq_all_conv)
qed

lemma Scan_Nil: "Scan [] = []"
  by (simp add: Scan.simps ScanLines_def)


lemma Scan_last: "l \<noteq> [] \<Longrightarrow> NL \<notin> set l \<Longrightarrow> Scan l = [dropCR l]"
  using IndexByte_None_iff [of l NL]
  by (subst Scan.simps) (simp add: ScanLines_def Scan_Nil)




subsection \<open>Maps, the differ and the file operations\<close>





lemma sort_keys: "distinct (map fst env) \<Longrightarrow> sort (map fst env) = sorted_list_of_set (dom (map_of env))"
  by (simp add: dom_map_of_conv_image_fst sorted_list_of_set_sort_remdups distinct_remdups_id flip: set_map)

lemma getv_the: "k \<in> dom (map_of env) \<Longrightarrow> getv env k = the (map_of env k)"
  by (auto simp: getv_def)


lemma WriteString_ok:
  "WriteString path s w = (None, w') \<Longrightarrow> files w path = Some d \<Longrightarrow>
   files w' = (files w)(path \<mapsto> d @ s) \<and> cp_fails w' = cp_fails w \<and> stdout w' = stdout w"
  by (auto simp: WriteString_def split: option.splits if_splits)

lemma WriteString_room: "room w = None \<Longrightarrow> files w path = Some d \<Longrightarrow>
   WriteString path s w = (None, w\<lparr>files := (files w)(path \<mapsto> d @ s)\<rparr>)"
  by (simp add: WriteString_def)

lemma writeEnv_loop_ok:
  "writeEnv_loop file env keys w = (None, w') \<Longrightarrow> files w file = Some d \<Longrightarrow>
   files w' = (files w)(file \<mapsto> d @ concat (map (\<lambda>k. valueFmt k (getv env k)) keys))"
proof (induction keys arbitrary: w d)
  case Nil
  then show ?case by auto
next
  case (Cons k keys)
  obtain e w1 where ws: "WriteString file (valueFmt k (getv env k)) w = (e, w1)"
    by (cases "WriteString file (valueFmt k (getv env k)) w")
  with Cons.prems(1) have e: "e = None" and rest: "writeEnv_loop file env keys w1 = (None, w')"
    by (auto split: option.splits)
  from WriteString_ok [OF ws [unfolded e] Cons.prems(2)]
  have w1: "files w1 = (files w)(file \<mapsto> d @ valueFmt k (getv env k))" by simp
  then have "files w1 file = Some (d @ valueFmt k (getv env k))" by simp
  from Cons.IH [OF rest this] w1 show ?case by (simp add: fun_eq_iff)
qed

lemma writeEnv_loop_room:
  "room w = None \<Longrightarrow> files w file = Some d \<Longrightarrow> fst (writeEnv_loop file env keys w) = None"
proof (induction keys arbitrary: w d)
  case Nil
  then show ?case by simp
next
  case (Cons k keys)
  let ?w1 = "w\<lparr>files := (files w)(file \<mapsto> d @ valueFmt k (getv env k))\<rparr>"
  have "room ?w1 = None" "files ?w1 file = Some (d @ valueFmt k (getv env k))"
    using Cons.prems by simp_all
  from Cons.IH [OF this] show ?case
    by (simp add: WriteString_room [OF Cons.prems])
qed

lemma writeEnv_ok:
  "files w file = Some d \<Longrightarrow> writeEnv file env w = (None, w') \<Longrightarrow>
   files w' file = Some (d @ writeEnv_text env)"
  using writeEnv_loop_ok [of "file" env "sort (map fst env)" w w' d]
  by (simp add: writeEnv_def writeEnv_text_def)

lemma writeEnvG_ok:
  "files w file = Some d \<Longrightarrow> writeEnvG file env w = (None, w') \<Longrightarrow>
   files w' file = Some (d @ writeEnvG_text env)"
proof -
  assume d: "files w file = Some d" and r: "writeEnvG file env w = (None, w')"
  obtain e w1 where ws: "WriteString file (writeEnvG_text env) w = (e, w1)"
    by (cases "WriteString file (writeEnvG_text env) w")
  with r have "e = None" "w1 = w'" by (auto simp: writeEnvG_def Let_def split: option.splits)
  with WriteString_ok [OF ws [unfolded \<open>e = None\<close>] d] show ?thesis by simp
qed

lemma rm_other: "p \<noteq> path \<Longrightarrow> files (rm path w) p = files w p"
  by (simp add: rm_def)



subsection \<open>The writers and what the parser makes of their text\<close>

lemma writeEnvG_loop_chunks:
  "(i = 0 \<and> grp = [] \<and> prev = None) \<or> (i \<noteq> 0 \<and> (\<exists>p. prev = Some p \<and> grp = label p)) \<Longrightarrow>
   writeEnvG_loop env keys i grp buff = buff @ concat (chunks header_before env prev keys)"
proof (induction keys arbitrary: i grp buff prev)
  case Nil
  then show ?case by simp
next
  case (Cons k keys)
  have step: "writeEnvG_loop env (k # keys) i grp buff
      = writeEnvG_loop env keys (i + 1) (label k) (buff @ header_before prev k @ valueFmt k (getv env k))"
    using Cons.prems
    by (auto simp: Let_def prefixG_takeWhile label_def firstGroupFmt_def groupFmt_def)
  have "writeEnvG_loop env keys (i + 1) (label k) (buff @ header_before prev k @ valueFmt k (getv env k))
      = (buff @ header_before prev k @ valueFmt k (getv env k)) @ concat (chunks header_before env (Some k) keys)"
    by (rule Cons.IH) simp
  with step show ?case by (simp add: valueFmt_def)
qed

lemma writeEnvG_text_chunks:
  "writeEnvG_text env = concat (chunks header_before env None (sort (map fst env)))"
  using writeEnvG_loop_chunks [of 0 "[]" None env "sort (map fst env)" "[]"]
  by (simp add: writeEnvG_text_def)














lemma writeEnv_loop_cong:
  "(\<And>k. getv e1 k = getv e2 k) \<Longrightarrow> writeEnv_loop f e1 keys w = writeEnv_loop f e2 keys w"
  by (induction keys arbitrary: w) (simp_all split: prod.splits option.splits)

lemma writeEnvG_loop_cong:
  "(\<And>k. getv e1 k = getv e2 k) \<Longrightarrow>
   writeEnvG_loop e1 keys i grp buff = writeEnvG_loop e2 keys i grp buff"
  by (induction keys arbitrary: i grp buff) (simp_all add: Let_def)

lemma same_map_same_output:
  assumes "distinct (map fst e1)" and "distinct (map fst e2)" and "map_of e1 = map_of e2"
  shows "writeEnv f e1 w = writeEnv f e2 w \<and> writeEnvG_text e1 = writeEnvG_text e2"
proof -
  have keys: "sort (map fst e1) = sort (map fst e2)"
    using assms by (simp add: sort_keys)
  have vals: "\<And>k. getv e1 k = getv e2 k"
    using assms(3) by (simp add: getv_def)
  show ?thesis
    using writeEnv_loop_cong [OF vals] writeEnvG_loop_cong [OF vals]
    by (simp add: writeEnv_def writeEnvG_text_def keys)
qed

lemma chunks_key_lines:
  "\<exists>hs. length hs = length keys
     \<and> (\<forall>h\<in>set hs. h = [] \<or> (\<exists>g. h = ''# '' @ g @ [NL] \<or> h = [NL] @ ''# '' @ g @ [NL]))
     \<and> concat (chunks header_before env prev keys)
       = concat (map2 (\<lambda>h k. h @ k @ ''='' @ getv env k @ [NL]) hs keys)"
proof (induction keys arbitrary: prev)
  case Nil
  then show ?case by simp
next
  case (Cons k keys)
  from Cons.IH [of "Some k"] obtain hs where hs: "length hs = length keys"
    "\<forall>h\<in>set hs. h = [] \<or> (\<exists>g. h = ''# '' @ g @ [NL] \<or> h = [NL] @ ''# '' @ g @ [NL])"
    "concat (chunks header_before env (Some k) keys)
       = concat (map2 (\<lambda>h k. h @ k @ ''='' @ getv env k @ [NL]) hs keys)"
    by blast
  have h: "header_before prev k = [] \<or>
      (\<exists>g. header_before prev k = ''# '' @ g @ [NL] \<or> header_before prev k = [NL] @ ''# '' @ g @ [NL])"
    by (cases prev) auto
  show ?case
    using hs h by (intro exI [of _ "header_before prev k # hs"]) simp
qed

lemma map2_cong_keys:
  "(\<And>k. k \<in> set keys \<Longrightarrow> f k = g k) \<Longrightarrow> length hs = length keys \<Longrightarrow>
   map2 (\<lambda>h k. h @ f k) hs keys = map2 (\<lambda>h k. h @ g k) hs keys"
  by (induction hs keys rule: list_induct2') simp_all

subsection \<open>The steps of \<open>Sync\<close>\<close>





lemma Sync_backup_failure:
  assumes "files w source = Some sFile" and "files w target = Some tFile"
    and "snd (mapEnv sFile) = None" and "snd (mapEnv tFile) = None"
    and "fst (cp target (target @ ''.bak'') w) \<noteq> None"
  shows "fst (Sync source target w) = Some ExitError
     \<and> files (snd (Sync source target w)) target = Some tFile"
proof -
  obtain sMap where s: "mapEnv sFile = (sMap, None)"
    using assms(3) by (cases "mapEnv sFile") simp
  obtain tMap where t: "mapEnv tFile = (tMap, None)"
    using assms(4) by (cases "mapEnv tFile") simp
  from assms(2,5) have c: "cp target (target @ ''.bak'') w = (Some ExitError, w)"
    by (auto simp: cp_def split: if_splits)
  show ?thesis
    using assms(1,2) by (simp add: Sync_def Sync_steps_def s t c cleanup_def rm_other)
qed

















text \<open>The definitions that a concrete run unfolds.\<close>

lemmas eval_defs = Sync_def Sync_steps_def SyncG_def SyncG_steps_def cleanup_def cp_def rm_def
  Truncate_def WriteString_def writeEnv_def writeEnvG_def writeEnvG_text_def mapEnv_def
  Scan.simps ScanLines_def dropCR_def HasPrefix_def separator_def splitNumber_def
  numeral_2_eq_2 getv_def valueFmt_def groupFmt_def firstGroupFmt_def prefixG_def Split_def
  appendNewEnvG_def printG_def Print_def Wrap_opt_def Let_def

subsection \<open>The parser\<close>





subsection \<open>The writer\<close>

text \<open>
  C6. Let \<open>env\<close> be a map (an association list with distinct keys). When the flat
  \<open>writeEnv\<close> succeeds, what it has appended to the file is exactly one line
  \<^verbatim>\<open>key=value\<close> with its newline for each key of the map, the keys in ascending order
  (\<open>sorted_list_of_set\<close> of the key set, in the byte-wise lexicographic order of strings).
  When the grouped \<open>writeEnv\<close> succeeds, what it has appended is the same lines in the
  same order, each preceded by nothing or by one group header (with or without its
  blank line). Both are functions of the map alone: two association lists that
  represent the same map, whatever the order of their entries, give the same result
  (the same bytes and the same error) in the same world.
\<close>

theorem writeEnv_sorted_lines:
  assumes "distinct (map fst env)"
  shows "(files w f = Some d \<and> writeEnv f env w = (None, w') \<longrightarrow>
            files w' f = Some (d @ concat (map (\<lambda>k. k @ ''='' @ the (map_of env k) @ [NL])
                                          (sorted_list_of_set (dom (map_of env))))))
     \<and> (files w f = Some d \<and> writeEnvG f env w = (None, w') \<longrightarrow>
          (\<exists>hs. length hs = length (sorted_list_of_set (dom (map_of env)))
             \<and> (\<forall>h\<in>set hs. h = [] \<or> (\<exists>g. h = ''# '' @ g @ [NL] \<or> h = [NL] @ ''# '' @ g @ [NL]))
             \<and> files w' f = Some (d @ concat (map2 (\<lambda>h k. h @ k @ ''='' @ the (map_of env k) @ [NL])
                                          hs (sorted_list_of_set (dom (map_of env)))))))
     \<and> (distinct (map fst env') \<and> map_of env' = map_of env \<longrightarrow>
          writeEnv f env' w = writeEnv f env w \<and> writeEnvG f env' w = writeEnvG f env w)"
proof (intro conjI impI)
  let ?keys = "sorted_list_of_set (dom (map_of env))"
  have keys: "sort (map fst env) = ?keys" by (rule sort_keys [OF assms])
  have vals: "\<And>k. k \<in> set ?keys \<Longrightarrow> getv env k = the (map_of env k)"
    by (simp add: getv_the finite_dom_map_of)
  {
    assume "files w f = Some d \<and> writeEnv f env w = (None, w')"
    then have "files w' f = Some (d @ writeEnv_text env)"
      using writeEnv_ok [of w f d env w'] by simp
    moreover have "map (\<lambda>k. valueFmt k (getv env k)) ?keys
        = map (\<lambda>k. k @ ''='' @ the (map_of env k) @ [NL]) ?keys"
      using vals by (simp add: valueFmt_def)
    ultimately show "files w' f = Some (d @ concat (map (\<lambda>k. k @ ''='' @ the (map_of env k) @ [NL]) ?keys))"
      by (simp add: writeEnv_text_def keys)
  }
  {
    assume "files w f = Some d \<and> writeEnvG f env w = (None, w')"
    then have content: "files w' f = Some (d @ concat (chunks header_before env None ?keys))"
      using writeEnvG_ok [of w f d env w'] by (simp add: writeEnvG_text_chunks keys)
    from chunks_key_lines [of ?keys env None] obtain hs where hs: "length hs = length ?keys"
      "\<forall>h\<in>set hs. h = [] \<or> (\<exists>g. h = ''# '' @ g @ [NL] \<or> h = [NL] @ ''# '' @ g @ [NL])"
      "concat (chunks header_before env None ?keys)
         = concat (map2 (\<lambda>h k. h @ k @ ''='' @ getv env k @ [NL]) hs ?keys)"
      by blast
    have eq: "map2 (\<lambda>h k. h @ k @ ''='' @ getv env k @ [NL]) hs ?keys
        = map2 (\<lambda>h k. h @ k @ ''='' @ the (map_of env k) @ [NL]) hs ?keys"
      by (rule map2_cong_keys [OF _ hs(1)]) (simp add: vals)
    from content have "files w' f
        = Some (d @ concat (map2 (\<lambda>h k. h @ k @ ''='' @ getv env k @ [NL]) hs ?keys))"
      by (simp only: hs(3))
    then have "files w' f
        = Some (d @ concat (map2 (\<lambda>h k. h @ k @ ''='' @ the (map_of env k) @ [NL]) hs ?keys))"
      by (simp only: eq)
    with hs(1,2) show "\<exists>hs. length hs = length ?keys
        \<and> (\<forall>h\<in>set hs. h = [] \<or> (\<exists>g. h = ''# '' @ g @ [NL] \<or> h = [NL] @ ''# '' @ g @ [NL]))
        \<and> files w' f = Some (d @ concat (map2 (\<lambda>h k. h @ k @ ''='' @ the (map_of env k) @ [NL]) hs ?keys))"
      by blast
  }
  {
    assume a: "distinct (map fst env') \<and> map_of env' = map_of env"
    then have "writeEnv f env' w = writeEnv f env w" "writeEnvG_text env' = writeEnvG_text env"
      using same_map_same_output [of env' env f w] assms by simp_all
    then show "writeEnv f env' w = writeEnv f env w" "writeEnvG f env' w = writeEnvG f env w"
      by (simp_all add: writeEnvG_def)
  }
qed

theorem writeEnv_sorted_lines_witness:
  "files (snd (writeEnv ''t'' [(''ZEBRA'', ''1''), (''APPLE'', ''2''), (''apple_b'', ''3'')] world_empty_target)) ''t''
     = Some ''APPLE=2\<newline>ZEBRA=1\<newline>apple_b=3\<newline>''
   \<and> writeEnv ''t'' [(''apple_b'', ''3''), (''APPLE'', ''2''), (''ZEBRA'', ''1'')] world_empty_target
     = writeEnv ''t'' [(''ZEBRA'', ''1''), (''APPLE'', ''2''), (''apple_b'', ''3'')] world_empty_target
   \<and> files (snd (writeEnvG ''t'' [(''ZEBRA'', ''1''), (''APPLE'', ''2''), (''apple_b'', ''3'')] world_empty_target)) ''t''
     = Some ''# APPLE\<newline>APPLE=2\<newline>\<newline># ZEBRA\<newline>ZEBRA=1\<newline>\<newline># apple\<newline>apple_b=3\<newline>''"
proof -
  let ?env = "[(''ZEBRA'', ''1''), (''APPLE'', ''2''), (''apple_b'', ''3'')]"
  let ?env' = "[(''apple_b'', ''3''), (''APPLE'', ''2''), (''ZEBRA'', ''1'')]"
  have d: "distinct (map fst ?env)" by simp
  have d': "distinct (map fst ?env') \<and> map_of ?env' = map_of ?env"
    by (auto simp: fun_eq_iff)
  have f: "files (snd (writeEnv ''t'' ?env world_empty_target)) ''t''
      = Some ''APPLE=2\<newline>ZEBRA=1\<newline>apple_b=3\<newline>''"
    by (simp add: world_empty_target_def eval_defs)
  have g: "files (snd (writeEnvG ''t'' ?env world_empty_target)) ''t''
      = Some ''# APPLE\<newline>APPLE=2\<newline>\<newline># ZEBRA\<newline>ZEBRA=1\<newline>\<newline># apple\<newline>apple_b=3\<newline>''"
    by (simp add: world_empty_target_def eval_defs)
  from writeEnv_sorted_lines [OF d, of world_empty_target "''t''" "[]" "snd (writeEnv ''t'' ?env world_empty_target)" ?env']
  have "writeEnv ''t'' ?env' world_empty_target = writeEnv ''t'' ?env world_empty_target"
    using d' by blast
  with f g show ?thesis by simp
qed

text \<open>
  C7, as amended. The group label of a key is the text before its first underscore, the
  whole key when it has none. The text of the grouped \<open>writeEnv\<close> is, for the sorted keys
  in turn, the header of the key followed by its line, where the header is: for the
  first key, \<^verbatim>\<open># label\<close> and a newline when its label is not empty, and nothing when
  it is empty; for any later key, a blank line, \<^verbatim>\<open># label\<close> and a newline when its
  label differs from the label of the key before it, and nothing otherwise.
\<close>

theorem writeEnvG_headers:
  "(CHR ''_'' \<notin> set k \<longrightarrow> prefixG k = k)
   \<and> (CHR ''_'' \<notin> set a \<longrightarrow> prefixG (a @ CHR ''_'' # b) = a)
   \<and> prefixG k = label k
   \<and> writeEnvG_text env = concat (chunks header_before env None (sort (map fst env)))
   \<and> (files w f = Some d \<and> writeEnvG f env w = (None, w') \<longrightarrow>
        files w' f = Some (d @ concat (chunks header_before env None (sort (map fst env)))))"
proof -
  have "CHR ''_'' \<notin> set a \<Longrightarrow> takeWhile (\<lambda>c. c \<noteq> CHR ''_'') (a @ CHR ''_'' # b) = a"
    by (induction a) auto
  then show ?thesis
    using writeEnvG_ok [of w f d env w']
    by (simp add: prefixG_takeWhile takeWhile_absent label_def writeEnvG_text_chunks
             del: takeWhile_eq_all_conv)
qed

theorem writeEnvG_headers_witness:
  "prefixG ''DB_HOST_NAME'' = ''DB'' \<and> prefixG ''PORT'' = ''PORT''
   \<and> files (snd (writeEnvG ''t'' [(''DB_USER'', ''u''), (''APP_ENV'', ''dev''), (''DB_HOST'', ''h'')] world_empty_target)) ''t''
     = Some ''# APP\<newline>APP_ENV=dev\<newline>\<newline># DB\<newline>DB_HOST=h\<newline>DB_USER=u\<newline>''"
proof -
  let ?env = "[(''DB_USER'', ''u''), (''APP_ENV'', ''dev''), (''DB_HOST'', ''h'')]"
  let ?w' = "snd (writeEnvG ''t'' ?env world_empty_target)"
  have ok: "files world_empty_target ''t'' = Some [] \<and> writeEnvG ''t'' ?env world_empty_target = (None, ?w')"
    by (simp add: world_empty_target_def eval_defs)
  from writeEnvG_headers [of "''PORT''" "''DB''" "''HOST_NAME''" ?env world_empty_target "''t''" "[]" ?w'] ok
  show ?thesis
    by (simp add: label_def valueFmt_def getv_def)
qed

text \<open>
  C7 as stated gives the first group its header in every case (\<open>header_claimed\<close>). The
  loop starts with the empty string as the current group, so a first key whose label is
  empty (\<^verbatim>\<open>_A\<close>) gets no header, although the same label gets one at a later position.
\<close>

theorem writeEnvG_first_header_missing:
  "writeEnvG_text [(''_A'', ''1'')] = ''_A=1\<newline>''
   \<and> concat (chunks header_claimed [(''_A'', ''1'')] None (sort (map fst [(''_A'', ''1'')])))
     = ''# \<newline>_A=1\<newline>''
   \<and> writeEnvG_text [(''B'', ''2''), (''_A'', ''1'')] = ''# B\<newline>B=2\<newline>\<newline># \<newline>_A=1\<newline>''"
  by (simp add: eval_defs label_def)

subsection \<open>Writing and reading back\<close>




subsection \<open>\<open>Sync\<close>\<close>








text \<open>
  C1. The code does not do what the claim says. The closure that restores the target
  is deferred with the value that \<^verbatim>\<open>err\<close> has at the \<^verbatim>\<open>defer\<close> statement, which is
  \<^verbatim>\<open>nil\<close>, so it never copies the backup back. On a device with no room left, with
  source \<^verbatim>\<open>FOO=1\<close> and target \<^verbatim>\<open>BAR=2\<close>, the backup copy succeeds, the write fails,
  \<open>Sync\<close> returns the error, and the target is left empty, in both variants.
\<close>

theorem Sync_rollback_lost:
  "files world_disk_full ''t'' = Some ''BAR=2\<newline>''
   \<and> fst (cp ''t'' ''t.bak'' world_disk_full) = None
   \<and> fst (Sync ''s'' ''t'' world_disk_full) \<noteq> None
   \<and> files (snd (Sync ''s'' ''t'' world_disk_full)) ''t'' = Some []
   \<and> fst (SyncG ''s'' ''t'' world_disk_full) \<noteq> None
   \<and> files (snd (SyncG ''s'' ''t'' world_disk_full)) ''t'' = Some []"
  by (simp add: world_disk_full_def eval_defs)

text \<open>
  C3. The flat variant does what the claim says (\<open>Sync_backup_failure\<close>). The grouped
  variant does not look at the result of the backup copy: with a \<^verbatim>\<open>cp\<close> that fails,
  source \<^verbatim>\<open>FOO=1\<close> and target \<^verbatim>\<open>BAR=2\<close>, \<open>SyncG\<close> returns no error and has rewritten
  the target, while \<open>Sync\<close> returns the error of the copy and leaves the target alone.
\<close>

theorem SyncG_backup_unchecked:
  "fst (cp ''t'' ''t.bak'' world_cp_failing) = Some ExitError
   \<and> fst (SyncG ''s'' ''t'' world_cp_failing) = None
   \<and> files (snd (SyncG ''s'' ''t'' world_cp_failing)) ''t''
       = Some ''# BAR\<newline>BAR=2\<newline>\<newline># FOO\<newline>FOO=1\<newline>''
   \<and> fst (Sync ''s'' ''t'' world_cp_failing) = Some ExitError
   \<and> files (snd (Sync ''s'' ''t'' world_cp_failing)) ''t'' = Some ''BAR=2\<newline>''"
  by (simp add: world_cp_failing_def eval_defs)

end
